theory Spec2Isabelle
  imports Main
begin

section \<open>States and triggers (orchestrator/states.ts)\<close>

text \<open>
  \<^verbatim>\<open>CoreState\<close> and \<^verbatim>\<open>ControlState\<close> are string unions in the source; their union
  \<^verbatim>\<open>State\<close> is one datatype here and the two subsets are predicates.
\<close>

datatype State =
    IDLE | ANALYZING | SEARCHING | PLANNING | GENERATING | APPLYING | BUILDING
  | TESTING | REVIEWING | SUBMITTING | DONE
  | PAUSED | ERROR | CANCELLED

text \<open>
  Modelled from the spec: the type \<^verbatim>\<open>Trigger\<close> of \<^verbatim>\<open>orchestrator/transitions.ts\<close>, which
  is not among the source files. Its members are the triggers the spec lists; each of
  them is used by \<^verbatim>\<open>StateMachine.transition\<close>, by \<^verbatim>\<open>SUCCESS_TRIGGERS\<close> or by the
  orchestrator.
\<close>

datatype Trigger =
    START | ANALYSIS_OK | SEARCH_OK | PLAN_OK | GENERATION_OK | APPLY_OK | BUILD_OK
  | TEST_OK | REVIEW_OK | SUBMIT_OK
  | PAUSE | RESUME | CANCEL | FAIL | RETRY

text \<open>\<^verbatim>\<open>['PAUSED', 'ERROR', 'CANCELLED'].includes(this.state)\<close> (step 6 of transition).\<close>

fun isControl :: "State \<Rightarrow> bool" where
  "isControl PAUSED = True"
| "isControl ERROR = True"
| "isControl CANCELLED = True"
| "isControl _ = False"

definition operational :: "State \<Rightarrow> bool" where
  "operational s = (\<not> isControl s)"

section \<open>Contexts: \<^verbatim>\<open>Record<string, unknown>\<close>\<close>

text \<open>
  The values a context can hold, as far as the guards look at them. Numbers are
  integers (no \<^verbatim>\<open>NaN\<close>); objects are association lists.
\<close>

datatype jsval =
    JUndefined | JNull | JBool bool | JNum int | JStr string
  | JArr "jsval list" | JObj "(string \<times> jsval) list"

type_synonym Context = "string \<rightharpoonup> jsval"

text \<open>\<^verbatim>\<open>!!v\<close>\<close>

fun truthy :: "jsval \<Rightarrow> bool" where
  "truthy JUndefined = False"
| "truthy JNull = False"
| "truthy (JBool b) = b"
| "truthy (JNum n) = (n \<noteq> 0)"
| "truthy (JStr s) = (s \<noteq> [])"
| "truthy (JArr xs) = True"
| "truthy (JObj kvs) = True"

text \<open>\<^verbatim>\<open>ctx.k\<close>: a missing key reads as \<^verbatim>\<open>undefined\<close>.\<close>

definition getProp :: "Context \<Rightarrow> string \<Rightarrow> jsval" where
  "getProp c k = (case c k of None \<Rightarrow> JUndefined | Some v \<Rightarrow> v)"

text \<open>\<^verbatim>\<open>Array.isArray(v) && v.length > 0\<close>\<close>

fun nonEmptyArray :: "jsval \<Rightarrow> bool" where
  "nonEmptyArray (JArr xs) = (length xs > 0)"
| "nonEmptyArray _ = False"

section \<open>Guards (orchestrator/guards.ts)\<close>

type_synonym GuardFn = "Context \<Rightarrow> bool"
type_synonym Guards = "State \<Rightarrow> GuardFn option"

text \<open>The table of \<^verbatim>\<open>src/orchestrator/guards.ts\<close>, the module the state machine imports.\<close>

fun transitionGuards :: Guards where
  "transitionGuards SEARCHING =
     Some (\<lambda>c. truthy (getProp c ''query'') \<or> truthy (getProp c ''analysisResults''))"
| "transitionGuards PLANNING = Some (\<lambda>c. nonEmptyArray (getProp c ''searchResults''))"
| "transitionGuards _ = None"

text \<open>The second definition of the same table in the repository (the analysis check).\<close>

fun transitionGuards_analysis :: Guards where
  "transitionGuards_analysis SEARCHING = Some (\<lambda>c. truthy (getProp c ''analysis''))"
| "transitionGuards_analysis PLANNING = Some (\<lambda>c. nonEmptyArray (getProp c ''searchResults''))"
| "transitionGuards_analysis _ = None"

section \<open>The transition table\<close>

type_synonym Transitions = "State \<Rightarrow> Trigger \<Rightarrow> State option"

text \<open>
  Modelled from the spec: the table \<^verbatim>\<open>transitions\<close> of \<^verbatim>\<open>orchestrator/transitions.ts\<close>,
  which \<^verbatim>\<open>StateMachine.transition\<close> imports and which is not among the source files.
  The spec gives the forward path
  \<^verbatim>\<open>IDLE -START-> ANALYZING -ANALYSIS_OK-> SEARCHING -SEARCH_OK-> PLANNING -PLAN_OK->
  GENERATING -GENERATION_OK-> APPLYING -APPLY_OK-> BUILDING -BUILD_OK-> TESTING -TEST_OK->
  REVIEWING -REVIEW_OK-> SUBMITTING -SUBMIT_OK-> DONE\<close>
  and \<^verbatim>\<open>ERROR -RETRY-> GENERATING\<close> (the retry target). \<^verbatim>\<open>PAUSE\<close>, \<^verbatim>\<open>CANCEL\<close> and
  \<^verbatim>\<open>FAIL\<close> are the global overrides of \<^verbatim>\<open>transition\<close> itself and \<^verbatim>\<open>RESUME\<close> is
  answered from the history, so the table has no entry for them; the unit tests
  require that \<^verbatim>\<open>DONE\<close> and \<^verbatim>\<open>CANCELLED\<close> have none for \<^verbatim>\<open>PAUSE\<close>.
\<close>

definition transitions :: Transitions where
  "transitions s t =
     (if s = IDLE \<and> t = START then Some ANALYZING
      else if s = ANALYZING \<and> t = ANALYSIS_OK then Some SEARCHING
      else if s = SEARCHING \<and> t = SEARCH_OK then Some PLANNING
      else if s = PLANNING \<and> t = PLAN_OK then Some GENERATING
      else if s = GENERATING \<and> t = GENERATION_OK then Some APPLYING
      else if s = APPLYING \<and> t = APPLY_OK then Some BUILDING
      else if s = BUILDING \<and> t = BUILD_OK then Some TESTING
      else if s = TESTING \<and> t = TEST_OK then Some REVIEWING
      else if s = REVIEWING \<and> t = REVIEW_OK then Some SUBMITTING
      else if s = SUBMITTING \<and> t = SUBMIT_OK then Some DONE
      else if s = ERROR \<and> t = RETRY then Some GENERATING
      else None)"

section \<open>Persisted record and store (orchestrator/states.ts, state-store.ts)\<close>

record ErrorPayload =
  code :: string
  message :: string
  details :: "string option"

record PersistedState =
  p_runId :: string
  currentState :: State
  updatedAt :: string
  p_attempt :: int
  p_context :: Context
  p_error :: "ErrorPayload option"
  p_history :: "State list"

text \<open>
  The store is the file at \<^verbatim>\<open>storagePath\<close>, seen through \<^verbatim>\<open>load\<close>: \<^verbatim>\<open>None\<close> when the
  file is missing or does not parse, the record otherwise (JSON serialisation is taken
  as the identity on records).
\<close>

type_synonym StateStore = "PersistedState option"

datatype error =
    InvalidTransition Trigger State
  | GuardRejected State
  | StorageError

text \<open>
  What the file system does with one \<^verbatim>\<open>save\<close>: \<^verbatim>\<open>mkdir\<close> and \<^verbatim>\<open>writeFile\<close> both
  succeed, or one of them throws and leaves the file in a state the environment
  chooses (given as what \<^verbatim>\<open>load\<close> would then return).
\<close>

datatype io_outcome = Written | Faulted "PersistedState option"

fun save :: "io_outcome \<Rightarrow> PersistedState \<Rightarrow> StateStore \<Rightarrow> (error + unit) \<times> StateStore" where
  "save Written p st = (Inr (), Some p)"
| "save (Faulted left) p st = (Inl StorageError, left)"

definition load :: "StateStore \<Rightarrow> PersistedState option" where
  "load st = st"

section \<open>The state machine (orchestrator/state-machine.ts)\<close>

record StateChangeEvent =
  ev_from :: State
  ev_to :: State
  ev_trigger :: Trigger
  ev_runId :: string
  ev_timestamp :: string

text \<open>
  The fields of \<^verbatim>\<open>class StateMachine\<close>; the field \<^verbatim>\<open>context\<close> is \<^verbatim>\<open>ctx\<close> here.
  \<^verbatim>\<open>events\<close> is the list of \<^verbatim>\<open>stateChange\<close> events emitted so far, oldest first.
  \<^verbatim>\<open>attempt\<close> is an unbounded integer.
\<close>

record StateMachine =
  state :: State
  history :: "State list"
  runId :: string
  attempt :: int
  ctx :: Context
  store :: StateStore
  events :: "StateChangeEvent list"

text \<open>\<^verbatim>\<open>new StateMachine(store, runId)\<close>\<close>

definition newStateMachine :: "StateStore \<Rightarrow> string \<Rightarrow> StateMachine" where
  "newStateMachine st rid =
     \<lparr>state = IDLE, history = [], runId = rid, attempt = 1, ctx = Map.empty,
      store = st, events = []\<rparr>"

record Payload =
  pl_context :: "Context option"
  pl_error :: "ErrorPayload option"

text \<open>\<^verbatim>\<open>payload?.context\<close> and \<^verbatim>\<open>payload?.error\<close>\<close>

definition payloadContext :: "Payload option \<Rightarrow> Context option" where
  "payloadContext payload = (case payload of None \<Rightarrow> None | Some p \<Rightarrow> pl_context p)"

definition payloadError :: "Payload option \<Rightarrow> ErrorPayload option" where
  "payloadError payload = (case payload of None \<Rightarrow> None | Some p \<Rightarrow> pl_error p)"

text \<open>\<^verbatim>\<open>{ ...this.context, ...payload?.context }\<close>\<close>

definition merged :: "Context \<Rightarrow> Payload option \<Rightarrow> Context" where
  "merged c payload = (case payloadContext payload of None \<Rightarrow> c | Some pc \<Rightarrow> c ++ pc)"

text \<open>\<^verbatim>\<open>this.history.pop()\<close> followed by \<^verbatim>\<open>if (!nextState) nextState = 'IDLE'\<close>\<close>

definition popHistory :: "StateMachine \<Rightarrow> State \<times> StateMachine" where
  "popHistory m =
     (if history m = [] then (IDLE, m)
      else (last (history m), m\<lparr>history := butlast (history m)\<rparr>))"

text \<open>Step 1a: resume from the history.\<close>

definition step1a :: "Trigger \<Rightarrow> StateMachine \<Rightarrow> State option \<times> StateMachine" where
  "step1a trg m =
     (if trg = RESUME then (case popHistory m of (s, m') \<Rightarrow> (Some s, m'))
      else (None, m))"

text \<open>Step 1b: retry; the attempt counter is incremented first.\<close>

definition step1b ::
  "Transitions \<Rightarrow> Trigger \<Rightarrow> State option \<times> StateMachine \<Rightarrow> State option \<times> StateMachine" where
  "step1b T trg r =
     (case r of (nx, m) \<Rightarrow>
        if trg = RETRY then
          (let m' = m\<lparr>attempt := attempt m + 1\<rparr> in
           case T (state m') RETRY of
             Some mapped \<Rightarrow> (Some mapped, m')
           | None \<Rightarrow> (case popHistory m' of (s, m'') \<Rightarrow> (Some s, m'')))
        else (nx, m))"

text \<open>Step 2: the global overrides, three \<^verbatim>\<open>if\<close>s in the source's order.\<close>

definition step2 :: "Trigger \<Rightarrow> State option \<times> StateMachine \<Rightarrow> State option \<times> StateMachine" where
  "step2 trg r =
     (case r of (nx, m) \<Rightarrow>
        if nx = None \<and> state m \<noteq> DONE \<and> state m \<noteq> CANCELLED then
          (let n1 = (if trg = PAUSE then Some PAUSED else nx);
               n2 = (if trg = CANCEL then Some CANCELLED else n1);
               n3 = (if trg = FAIL then Some ERROR else n2)
           in (n3, m))
        else (nx, m))"

text \<open>Step 3: the table.\<close>

definition step3 ::
  "Transitions \<Rightarrow> Trigger \<Rightarrow> State option \<times> StateMachine \<Rightarrow> State option \<times> StateMachine" where
  "step3 T trg r =
     (case r of (nx, m) \<Rightarrow> if nx = None then (T (state m) trg, m) else (nx, m))"

definition resolve :: "Transitions \<Rightarrow> Trigger \<Rightarrow> StateMachine \<Rightarrow> State option \<times> StateMachine" where
  "resolve T trg m = step3 T trg (step2 trg (step1b T trg (step1a trg m)))"

text \<open>Step 5: \<^verbatim>\<open>const guard = transitionGuards[nextState]; if (guard) ...\<close>\<close>

definition guardPasses :: "Guards \<Rightarrow> State \<Rightarrow> Context \<Rightarrow> bool" where
  "guardPasses G s c = (case G s of None \<Rightarrow> True | Some g \<Rightarrow> g c)"

text \<open>Step 6: push the current state as a checkpoint.\<close>

definition step6 :: "Trigger \<Rightarrow> StateMachine \<Rightarrow> StateMachine" where
  "step6 trg m =
     (if \<not> isControl (state m) \<and> trg \<noteq> RESUME \<and> trg \<noteq> RETRY
      then m\<lparr>history := history m @ [state m]\<rparr> else m)"

text \<open>Step 7: commit the state and merge the payload context.\<close>

definition step7 :: "State \<Rightarrow> Payload option \<Rightarrow> StateMachine \<Rightarrow> StateMachine" where
  "step7 nextState payload m = m\<lparr>state := nextState, ctx := merged (ctx m) payload\<rparr>"

text \<open>Step 8: the record handed to \<^verbatim>\<open>store.save\<close>; \<^verbatim>\<open>now\<close> is \<^verbatim>\<open>new Date().toISOString()\<close>.\<close>

definition persistedOf :: "string \<Rightarrow> Payload option \<Rightarrow> StateMachine \<Rightarrow> PersistedState" where
  "persistedOf now payload m =
     \<lparr>p_runId = runId m, currentState = state m, updatedAt = now, p_attempt = attempt m,
      p_context = ctx m, p_error = payloadError payload, p_history = history m\<rparr>"

text \<open>Step 9: \<^verbatim>\<open>StateMachineEvents.emitTransition\<close>.\<close>

definition emitTransition :: "StateChangeEvent \<Rightarrow> StateMachine \<Rightarrow> StateMachine" where
  "emitTransition e m = m\<lparr>events := events m @ [e]\<rparr>"

text \<open>
  Steps 1 to 8 of \<^verbatim>\<open>transition\<close>: everything up to and including
  \<^verbatim>\<open>await this.store.save(persisted)\<close>. Every \<^verbatim>\<open>throw\<close> is an \<^verbatim>\<open>Inl\<close>, returned with
  the machine as the mutations made before the throw have left it. On success the
  event that step 9 will emit is returned.
\<close>

definition commitAndSave ::
  "Transitions \<Rightarrow> Guards \<Rightarrow> io_outcome \<Rightarrow> string \<Rightarrow> Trigger \<Rightarrow> Payload option \<Rightarrow> StateMachine
     \<Rightarrow> (error + StateChangeEvent) \<times> StateMachine" where
  "commitAndSave T G io now trg payload m0 =
     (let fromState = state m0 in
      case resolve T trg m0 of (nx, m) \<Rightarrow>
        (case nx of
           None \<Rightarrow> (Inl (InvalidTransition trg (state m)), m)
         | Some nextState \<Rightarrow>
             if \<not> guardPasses G nextState (merged (ctx m) payload)
             then (Inl (GuardRejected nextState), m)
             else
               (let m7 = step7 nextState payload (step6 trg m);
                    persisted = persistedOf now payload m7
                in case save io persisted (store m7) of
                     (Inl e, st) \<Rightarrow> (Inl e, m7\<lparr>store := st\<rparr>)
                   | (Inr u, st) \<Rightarrow>
                       (Inr \<lparr>ev_from = fromState, ev_to = state m7, ev_trigger = trg,
                             ev_runId = runId m7, ev_timestamp = updatedAt persisted\<rparr>,
                        m7\<lparr>store := st\<rparr>))))"

text \<open>\<^verbatim>\<open>async transition(trigger, payload)\<close>\<close>

definition transition ::
  "Transitions \<Rightarrow> Guards \<Rightarrow> io_outcome \<Rightarrow> string \<Rightarrow> Trigger \<Rightarrow> Payload option \<Rightarrow> StateMachine
     \<Rightarrow> (error + unit) \<times> StateMachine" where
  "transition T G io now trg payload m0 =
     (case commitAndSave T G io now trg payload m0 of
        (Inl e, m) \<Rightarrow> (Inl e, m)
      | (Inr ev, m) \<Rightarrow> (Inr (), emitTransition ev m))"

text \<open>\<^verbatim>\<open>initialize()\<close>\<close>

definition initialize :: "StateMachine \<Rightarrow> StateMachine" where
  "initialize m =
     (case load (store m) of
        None \<Rightarrow> m
      | Some loaded \<Rightarrow>
          if p_runId loaded = runId m
          then m\<lparr>state := currentState loaded, attempt := p_attempt loaded,
                 ctx := p_context loaded, history := p_history loaded\<rparr>
          else m)"

text \<open>
  A run of the machine: a list of transition calls, each with what the environment
  does at that call. A call that throws leaves the machine as the throw found it, and
  the caller goes on with the next call.
\<close>

record Call =
  c_io :: io_outcome
  c_now :: string
  c_trigger :: Trigger
  c_payload :: "Payload option"

definition fire :: "Transitions \<Rightarrow> Guards \<Rightarrow> Call \<Rightarrow> StateMachine \<Rightarrow> (error + unit) \<times> StateMachine" where
  "fire T G c m = transition T G (c_io c) (c_now c) (c_trigger c) (c_payload c) m"

fun exec :: "Transitions \<Rightarrow> Guards \<Rightarrow> Call list \<Rightarrow> StateMachine \<Rightarrow> StateMachine" where
  "exec T G [] m = m"
| "exec T G (c # cs) m = exec T G cs (snd (fire T G c m))"

text \<open>Every call of the run committed (returned without throwing).\<close>

fun allCommitted :: "Transitions \<Rightarrow> Guards \<Rightarrow> Call list \<Rightarrow> StateMachine \<Rightarrow> bool" where
  "allCommitted T G [] m = True"
| "allCommitted T G (c # cs) m =
     (case fire T G c m of
        (Inl e, m') \<Rightarrow> False
      | (Inr u, m') \<Rightarrow> allCommitted T G cs m')"

section \<open>The recovery manager (orchestrator/recovery.ts)\<close>

datatype ErrorSeverity = Transient | Retryable | Fatal

record ErrorClassification =
  severity :: ErrorSeverity
  cl_code :: string
  cl_message :: string
  cl_details :: "string option"
  retryTarget :: "State option"

definition FIX_CYCLE_STATES :: "State list" where
  "FIX_CYCLE_STATES = [GENERATING, APPLYING, BUILDING, TESTING, REVIEWING]"

text \<open>\<^verbatim>\<open>s.startsWith(p)\<close> and \<^verbatim>\<open>s.includes(p)\<close> on strings as character lists.\<close>

fun startsWith :: "string \<Rightarrow> string \<Rightarrow> bool" where
  "startsWith s [] = True"
| "startsWith [] (p # ps) = False"
| "startsWith (c # cs) (p # ps) = (c = p \<and> startsWith cs ps)"

fun str_includes :: "string \<Rightarrow> string \<Rightarrow> bool" where
  "str_includes [] p = (p = [])"
| "str_includes (c # cs) p = (startsWith (c # cs) p \<or> str_includes cs p)"

text \<open>\<^verbatim>\<open>s.toLowerCase()\<close>, on the letters A to Z.\<close>

definition lowerChar :: "char \<Rightarrow> char" where
  "lowerChar c =
     (case map_of (zip ''ABCDEFGHIJKLMNOPQRSTUVWXYZ'' ''abcdefghijklmnopqrstuvwxyz'') c of
        None \<Rightarrow> c
      | Some l \<Rightarrow> l)"

definition toLowerCase :: "string \<Rightarrow> string" where
  "toLowerCase s = map lowerChar s"

definition transientPatterns :: "string list" where
  "transientPatterns =
     [''rate limit'', ''timeout'', ''ECONNREFUSED'', ''ECONNRESET'', ''ETIMEDOUT'',
      ''socket hang up'', ''network error'', ''status 429'', ''status 503'', ''status 502'']"

definition fatalPatterns :: "string list" where
  "fatalPatterns =
     [''Authentication failed'', ''API key is required'', ''token is required'',
      ''Invalid configuration'', ''No handler registered'']"

definition isTransient :: "string \<Rightarrow> bool" where
  "isTransient msg =
     (let lower = toLowerCase msg in
      list_ex (\<lambda>p. str_includes lower (toLowerCase p)) transientPatterns)"

definition isFatal :: "string \<Rightarrow> bool" where
  "isFatal msg = list_ex (\<lambda>p. str_includes msg p) fatalPatterns"

text \<open>
  \<^verbatim>\<open>classify(error, currentState)\<close>: \<^verbatim>\<open>msg\<close> is the error's message (or its string
  form) and \<^verbatim>\<open>det\<close> its stack, when it has one.
\<close>

definition classify :: "string \<Rightarrow> string option \<Rightarrow> State \<Rightarrow> ErrorClassification" where
  "classify msg det curState =
     (if isFatal msg then
        \<lparr>severity = Fatal, cl_code = ''FATAL_ERROR'', cl_message = msg, cl_details = det,
         retryTarget = None\<rparr>
      else if curState \<in> set FIX_CYCLE_STATES then
        \<lparr>severity = Retryable, cl_code = ''RETRYABLE_ERROR'', cl_message = msg,
         cl_details = det, retryTarget = Some GENERATING\<rparr>
      else if isTransient msg then
        \<lparr>severity = Transient, cl_code = ''TRANSIENT_ERROR'', cl_message = msg,
         cl_details = det, retryTarget = None\<rparr>
      else
        \<lparr>severity = Fatal, cl_code = ''UNRECOVERABLE_ERROR'', cl_message = msg,
         cl_details = det, retryTarget = None\<rparr>)"

text \<open>\<^verbatim>\<open>shouldRetry(attempt, classification)\<close> of a manager built with \<^verbatim>\<open>maxAttempts\<close>.\<close>

definition shouldRetry :: "int \<Rightarrow> int \<Rightarrow> ErrorClassification \<Rightarrow> bool" where
  "shouldRetry maxAttempts att c =
     (if severity c = Fatal then False
      else if retryTarget c = None then False
      else att < maxAttempts)"

section \<open>The orchestrator's failure path (orchestrator/workflow.ts)\<close>

text \<open>
  The fields of \<^verbatim>\<open>WorkflowOrchestrator\<close> that the failure path reads and writes.
  \<^verbatim>\<open>data\<close> is the workflow data as a key/value bag.
\<close>

record Orchestrator =
  machine :: StateMachine
  maxAttempts :: int
  data :: Context
  lastError :: "ErrorClassification option"

text \<open>\<^verbatim>\<open>workflowDataToContext\<close>: the entries whose value is not \<^verbatim>\<open>undefined\<close>.\<close>

definition workflowDataToContext :: "Context \<Rightarrow> Context" where
  "workflowDataToContext d = (\<lambda>k. case d k of Some JUndefined \<Rightarrow> None | v \<Rightarrow> v)"

text \<open>
  The \<^verbatim>\<open>catch\<close> branch of \<^verbatim>\<open>executeState(state)\<close>: classify the error, remember it,
  and issue \<^verbatim>\<open>FAIL\<close> with the classified error as payload. A throw of that transition
  leaves \<^verbatim>\<open>executeState\<close>.
\<close>

definition executeState_catch ::
  "Transitions \<Rightarrow> Guards \<Rightarrow> io_outcome \<Rightarrow> string \<Rightarrow> string \<Rightarrow> string option \<Rightarrow> State
     \<Rightarrow> Orchestrator \<Rightarrow> (error + unit) \<times> Orchestrator" where
  "executeState_catch T G io now msg det st orc =
     (let c = classify msg det st;
          orc1 = orc\<lparr>lastError := Some c\<rparr>;
          payload = \<lparr>pl_context = Some (workflowDataToContext (data orc1)),
                     pl_error = Some \<lparr>code = cl_code c, message = cl_message c,
                                       details = cl_details c\<rparr>\<rparr>
      in case transition T G io now FAIL (Some payload) (machine orc1) of
           (r, m) \<Rightarrow> (r, orc1\<lparr>machine := m\<rparr>))"

text \<open>\<^verbatim>\<open>attemptRecovery()\<close>\<close>

definition attemptRecovery ::
  "Transitions \<Rightarrow> Guards \<Rightarrow> io_outcome \<Rightarrow> string \<Rightarrow> Orchestrator \<Rightarrow> bool \<times> Orchestrator" where
  "attemptRecovery T G io now orc =
     (case lastError orc of
        None \<Rightarrow> (False, orc)
      | Some c \<Rightarrow>
          if \<not> shouldRetry (maxAttempts orc) (attempt (machine orc)) c then (False, orc)
          else
            (case transition T G io now RETRY None (machine orc) of
               (Inr u, m) \<Rightarrow> (True, orc\<lparr>machine := m, lastError := None\<rparr>)
             | (Inl e, m) \<Rightarrow> (False, orc\<lparr>machine := m\<rparr>)))"

section \<open>The forward path and sample runs\<close>

text \<open>The success triggers, in pipeline order, preceded by \<^verbatim>\<open>START\<close>.\<close>

definition forwardTriggers :: "Trigger list" where
  "forwardTriggers =
     [START, ANALYSIS_OK, SEARCH_OK, PLAN_OK, GENERATION_OK, APPLY_OK, BUILD_OK, TEST_OK,
      REVIEW_OK, SUBMIT_OK]"

text \<open>The states of the forward path, in order.\<close>

definition forwardPath :: "State list" where
  "forwardPath =
     [IDLE, ANALYZING, SEARCHING, PLANNING, GENERATING, APPLYING, BUILDING, TESTING,
      REVIEWING, SUBMITTING, DONE]"

text \<open>Concrete inputs on which the theorems below are run.\<close>

definition stamp :: string where
  "stamp = ''2026-01-01T00:00:00.000Z''"

definition freshMachine :: StateMachine where
  "freshMachine = newStateMachine None ''run-1''"

definition call :: "Trigger \<Rightarrow> Payload option \<Rightarrow> Call" where
  "call trg p = \<lparr>c_io = Written, c_now = stamp, c_trigger = trg, c_payload = p\<rparr>"

definition analysisPayload :: Payload where
  "analysisPayload =
     \<lparr>pl_context =
        Some [''analysis'' \<mapsto> JObj [(''type'', JStr ''bug'')], ''query'' \<mapsto> JStr ''crash''],
      pl_error = None\<rparr>"

definition queryOnlyPayload :: Payload where
  "queryOnlyPayload = \<lparr>pl_context = Some [''query'' \<mapsto> JStr ''crash''], pl_error = None\<rparr>"

definition analysisOnlyPayload :: Payload where
  "analysisOnlyPayload =
     \<lparr>pl_context = Some [''analysis'' \<mapsto> JObj [(''type'', JStr ''bug'')]], pl_error = None\<rparr>"

definition searchPayload :: Payload where
  "searchPayload =
     \<lparr>pl_context = Some [''searchResults'' \<mapsto> JArr [JStr ''src/a.ts'']], pl_error = None\<rparr>"

definition happyPath :: "Call list" where
  "happyPath =
     [call START None, call ANALYSIS_OK (Some analysisPayload),
      call SEARCH_OK (Some searchPayload), call PLAN_OK None, call GENERATION_OK None,
      call APPLY_OK None, call BUILD_OK None, call TEST_OK None, call REVIEW_OK None,
      call SUBMIT_OK None]"

definition analyzingMachine :: StateMachine where
  "analyzingMachine = exec transitions transitionGuards (take 1 happyPath) freshMachine"

definition testingMachine :: StateMachine where
  "testingMachine = exec transitions transitionGuards (take 7 happyPath) freshMachine"

definition doneMachine :: StateMachine where
  "doneMachine = exec transitions transitionGuards happyPath freshMachine"

definition testingOrchestrator :: "int \<Rightarrow> Orchestrator" where
  "testingOrchestrator n =
     \<lparr>machine = testingMachine, maxAttempts = n, data = Map.empty, lastError = None\<rparr>"

definition transientWithTarget :: ErrorClassification where
  "transientWithTarget =
     \<lparr>severity = Transient, cl_code = ''X'', cl_message = ''x'', cl_details = None,
      retryTarget = Some GENERATING\<rparr>"

section \<open>Basic facts about \<^verbatim>\<open>transition\<close>\<close>

lemmas resolve_defs = resolve_def step1a_def step1b_def step2_def step3_def popHistory_def

lemma resolve_fields:
  "state (snd (resolve T trg m)) = state m"
  "ctx (snd (resolve T trg m)) = ctx m"
  "store (snd (resolve T trg m)) = store m"
  "events (snd (resolve T trg m)) = events m"
  "runId (snd (resolve T trg m)) = runId m"
  by (simp_all add: resolve_defs Let_def split: option.splits prod.splits)

lemma resolve_attempt:
  "attempt (snd (resolve T trg m)) = (if trg = RETRY then attempt m + 1 else attempt m)"
  by (simp add: resolve_defs Let_def split: option.splits prod.splits)

lemma resolve_history:
  "history (snd (resolve T trg m)) = history m
   \<or> history (snd (resolve T trg m)) = butlast (history m)"
  by (simp add: resolve_defs Let_def split: option.splits prod.splits)

lemma resolve_history_set: "set (history (snd (resolve T trg m))) \<subseteq> set (history m)"
  using resolve_history[of T trg m] by (auto dest: in_set_butlastD)

lemma resolve_PAUSE:
  "state m \<noteq> DONE \<Longrightarrow> state m \<noteq> CANCELLED \<Longrightarrow> resolve T PAUSE m = (Some PAUSED, m)"
  by (simp add: resolve_defs)

lemma resolve_FAIL:
  "state m \<noteq> DONE \<Longrightarrow> state m \<noteq> CANCELLED \<Longrightarrow> resolve T FAIL m = (Some ERROR, m)"
  by (simp add: resolve_defs)

lemma resolve_RESUME:
  "resolve T RESUME m =
     (Some (if history m = [] then IDLE else last (history m)),
      m\<lparr>history := butlast (history m)\<rparr>)"
  by (simp add: resolve_defs)

lemma resolve_RETRY_transitions:
  "state m = ERROR \<Longrightarrow>
   resolve transitions RETRY m = (Some GENERATING, m\<lparr>attempt := attempt m + 1\<rparr>)"
  by (simp add: resolve_defs transitions_def Let_def)

lemma forward_not_control:
  "trg \<in> set forwardTriggers \<Longrightarrow>
   trg \<noteq> RESUME \<and> trg \<noteq> RETRY \<and> trg \<noteq> PAUSE \<and> trg \<noteq> CANCEL \<and> trg \<noteq> FAIL"
  by (auto simp: forwardTriggers_def)

lemma resolve_forward:
  "trg \<in> set forwardTriggers \<Longrightarrow> resolve T trg m = (T (state m) trg, m)"
  by (drule forward_not_control) (simp add: resolve_defs)

text \<open>The four ways a call of \<^verbatim>\<open>commitAndSave\<close> can end.\<close>

lemma commitAndSave_cases:
  obtains (invalid) m1 where "resolve T trg m = (None, m1)"
      "commitAndSave T G io now trg payload m = (Inl (InvalidTransition trg (state m1)), m1)"
  | (rejected) nx m1 where "resolve T trg m = (Some nx, m1)"
      "\<not> guardPasses G nx (merged (ctx m1) payload)"
      "commitAndSave T G io now trg payload m = (Inl (GuardRejected nx), m1)"
  | (faulted) nx m1 left where "resolve T trg m = (Some nx, m1)"
      "guardPasses G nx (merged (ctx m1) payload)" "io = Faulted left"
      "commitAndSave T G io now trg payload m =
         (Inl StorageError, (step7 nx payload (step6 trg m1))\<lparr>store := left\<rparr>)"
  | (written) nx m1 where "resolve T trg m = (Some nx, m1)"
      "guardPasses G nx (merged (ctx m1) payload)" "io = Written"
      "commitAndSave T G io now trg payload m =
         (Inr \<lparr>ev_from = state m, ev_to = nx, ev_trigger = trg, ev_runId = runId m1,
               ev_timestamp = now\<rparr>,
          (step7 nx payload (step6 trg m1))
            \<lparr>store := Some (persistedOf now payload (step7 nx payload (step6 trg m1)))\<rparr>)"
proof (cases "resolve T trg m")
  case (Pair nxo m1)
  show thesis
  proof (cases nxo)
    case None
    with Pair invalid show thesis by (simp add: commitAndSave_def)
  next
    case (Some nx)
    show thesis
    proof (cases "guardPasses G nx (merged (ctx m1) payload)")
      case False
      with Pair Some rejected show thesis by (simp add: commitAndSave_def)
    next
      case True
      show thesis
      proof (cases io)
        case Written
        with Pair Some True written show thesis
          by (simp add: commitAndSave_def Let_def step7_def step6_def persistedOf_def)
      next
        case (Faulted left)
        with Pair Some True faulted show thesis
          by (simp add: commitAndSave_def Let_def)
      qed
    qed
  qed
qed

text \<open>The same for \<^verbatim>\<open>transition\<close>.\<close>

lemma transition_cases:
  obtains (invalid) m1 where "resolve T trg m = (None, m1)"
      "transition T G io now trg payload m = (Inl (InvalidTransition trg (state m1)), m1)"
  | (rejected) nx m1 where "resolve T trg m = (Some nx, m1)"
      "\<not> guardPasses G nx (merged (ctx m1) payload)"
      "transition T G io now trg payload m = (Inl (GuardRejected nx), m1)"
  | (faulted) nx m1 left where "resolve T trg m = (Some nx, m1)"
      "guardPasses G nx (merged (ctx m1) payload)" "io = Faulted left"
      "transition T G io now trg payload m =
         (Inl StorageError, (step7 nx payload (step6 trg m1))\<lparr>store := left\<rparr>)"
  | (written) nx m1 where "resolve T trg m = (Some nx, m1)"
      "guardPasses G nx (merged (ctx m1) payload)" "io = Written"
      "transition T G io now trg payload m =
         (Inr (),
          emitTransition
            \<lparr>ev_from = state m, ev_to = nx, ev_trigger = trg, ev_runId = runId m1,
              ev_timestamp = now\<rparr>
            ((step7 nx payload (step6 trg m1))
               \<lparr>store := Some (persistedOf now payload (step7 nx payload (step6 trg m1)))\<rparr>))"
proof (cases rule: commitAndSave_cases[where T=T and trg=trg and m=m and G=G
        and payload=payload and io=io and now=now])
  case (invalid m1)
  from invalid(2)
  have "transition T G io now trg payload m = (Inl (InvalidTransition trg (state m1)), m1)"
    unfolding transition_def by simp
  with invalid(1) show ?thesis by (rule that(1))
next
  case (rejected nx m1)
  from rejected(3) have "transition T G io now trg payload m = (Inl (GuardRejected nx), m1)"
    unfolding transition_def by simp
  with rejected(1,2) show ?thesis by (rule that(2))
next
  case (faulted nx m1 left)
  from faulted(4) have "transition T G io now trg payload m =
         (Inl StorageError, (step7 nx payload (step6 trg m1))\<lparr>store := left\<rparr>)"
    unfolding transition_def by simp
  with faulted(1,2,3) show ?thesis by (rule that(3))
next
  case (written nx m1)
  from written(4) have "transition T G io now trg payload m =
         (Inr (),
          emitTransition
            \<lparr>ev_from = state m, ev_to = nx, ev_trigger = trg, ev_runId = runId m1,
              ev_timestamp = now\<rparr>
            ((step7 nx payload (step6 trg m1))
               \<lparr>store := Some (persistedOf now payload (step7 nx payload (step6 trg m1)))\<rparr>))"
    unfolding transition_def by simp
  with written(1,2,3) show ?thesis by (rule that(4))
qed

lemma after_commit_fields:
  "state (emitTransition e ((step7 nx payload m1)\<lparr>store := st\<rparr>)) = nx"
  "ctx (emitTransition e ((step7 nx payload m1)\<lparr>store := st\<rparr>)) = merged (ctx m1) payload"
  "history (emitTransition e ((step7 nx payload m1)\<lparr>store := st\<rparr>)) = history m1"
  "attempt (emitTransition e ((step7 nx payload m1)\<lparr>store := st\<rparr>)) = attempt m1"
  "state ((step7 nx payload m1)\<lparr>store := st\<rparr>) = nx"
  "ctx ((step7 nx payload m1)\<lparr>store := st\<rparr>) = merged (ctx m1) payload"
  "history ((step7 nx payload m1)\<lparr>store := st\<rparr>) = history m1"
  "attempt ((step7 nx payload m1)\<lparr>store := st\<rparr>) = attempt m1"
  by (simp_all add: emitTransition_def step7_def)

lemma step6_fields:
  "state (step6 trg m) = state m"
  "ctx (step6 trg m) = ctx m"
  "attempt (step6 trg m) = attempt m"
  "history (step6 trg m) =
     (if \<not> isControl (state m) \<and> trg \<noteq> RESUME \<and> trg \<noteq> RETRY
      then history m @ [state m] else history m)"
  by (simp_all add: step6_def)

text \<open>
  The counter is incremented by step 1b before anything can throw, so the equation
  holds for every call, committed or not.
\<close>

lemma commitAndSave_attempt:
  "attempt (snd (commitAndSave T G io now trg payload m))
   = (if trg = RETRY then attempt m + 1 else attempt m)"
  unfolding commitAndSave_def Let_def
  by (cases "resolve T trg m"; cases io)
     (use resolve_attempt[of T trg m] in
       \<open>auto simp: step6_def step7_def split: option.splits sum.splits prod.splits\<close>)

lemma transition_attempt:
  "attempt (snd (transition T G io now trg payload m))
   = (if trg = RETRY then attempt m + 1 else attempt m)"
  using commitAndSave_attempt[of T G io now trg payload m]
  by (auto simp: transition_def emitTransition_def split: prod.splits sum.splits)

lemma exec_attempt_mono: "attempt m \<le> attempt (exec T G cs m)"
proof (induction cs arbitrary: m)
  case Nil
  show ?case by simp
next
  case (Cons c cs)
  have "attempt m \<le> attempt (snd (fire T G c m))"
    by (simp add: fire_def transition_attempt)
  also have "\<dots> \<le> attempt (exec T G cs (snd (fire T G c m)))"
    by (rule Cons.IH)
  finally show ?case by simp
qed

lemma transition_state_committed:
  "fst (transition T G io now trg payload m) = Inr () \<Longrightarrow>
   resolve T trg m = (Some nx, m1) \<Longrightarrow>
   state (snd (transition T G io now trg payload m)) = nx"
  by (cases rule: transition_cases[where T=T and trg=trg and m=m and G=G
        and payload=payload and io=io and now=now])
     (simp_all add: after_commit_fields)

lemma transition_state_unguarded:
  assumes "resolve T trg m = (Some nx, m1)" "G nx = None"
  shows "state (snd (transition T G io now trg payload m)) = nx
       \<and> attempt (snd (transition T G io now trg payload m)) = attempt m1
       \<and> (io = Written \<longrightarrow> fst (transition T G io now trg payload m) = Inr ())"
  using assms
  by (cases rule: transition_cases[where T=T and trg=trg and m=m and G=G
        and payload=payload and io=io and now=now])
     (simp_all add: after_commit_fields guardPasses_def step6_fields)

text \<open>Evaluation of the sample runs.\<close>

lemmas eval_defs = fire_def call_def transition_def commitAndSave_def resolve_defs
  step6_def step7_def transitions_def guardPasses_def merged_def payloadContext_def
  payloadError_def persistedOf_def emitTransition_def newStateMachine_def getProp_def
  freshMachine_def analysisPayload_def searchPayload_def stamp_def

lemma analyzingMachine_state: "state analyzingMachine = ANALYZING"
  by (simp add: analyzingMachine_def happyPath_def eval_defs)

lemma testingMachine_state: "state testingMachine = TESTING"
  by (simp add: testingMachine_def happyPath_def eval_defs)

lemma doneMachine_state: "state doneMachine = DONE"
  by (simp add: doneMachine_def happyPath_def eval_defs)

lemma doneMachine_history:
  "history doneMachine =
     [IDLE, ANALYZING, SEARCHING, PLANNING, GENERATING, APPLYING, BUILDING, TESTING,
      REVIEWING, SUBMITTING]"
  by (simp add: doneMachine_def happyPath_def eval_defs)

lemma happyPath_committed: "allCommitted transitions transitionGuards happyPath freshMachine"
  by (simp add: happyPath_def eval_defs)

section \<open>The attempt counter\<close>

text \<open>
  C8. For every committed transition the attempt counter increases by exactly 1 when
  the trigger is \<^verbatim>\<open>RETRY\<close> and is unchanged for every other trigger; hence the counter
  never decreases, neither over one call of \<^verbatim>\<open>transition\<close> (committed or thrown) nor
  over a whole run of calls.
\<close>

theorem attempt_counter:
  "(fst (transition T G io now trg payload m) = Inr () \<longrightarrow>
      attempt (snd (transition T G io now trg payload m))
      = (if trg = RETRY then attempt m + 1 else attempt m))
   \<and> attempt m \<le> attempt (snd (transition T G io now trg payload m))
   \<and> attempt m \<le> attempt (exec T G cs m)"
  by (simp add: transition_attempt exec_attempt_mono)

text \<open>
  Run on a machine that failed in \<^verbatim>\<open>TESTING\<close>: the \<^verbatim>\<open>FAIL\<close> leaves the counter at 1,
  the committed \<^verbatim>\<open>RETRY\<close> moves it to 2.
\<close>

theorem attempt_counter_witness:
  "fst (transition transitions transitionGuards Written stamp RETRY None
          (snd (transition transitions transitionGuards Written stamp FAIL None testingMachine)))
     = Inr ()
   \<and> attempt (snd (transition transitions transitionGuards Written stamp FAIL None testingMachine))
     = 1
   \<and> attempt (snd (transition transitions transitionGuards Written stamp RETRY None
          (snd (transition transitions transitionGuards Written stamp FAIL None testingMachine))))
     = 2"
proof -
  define failed where
    "failed = snd (transition transitions transitionGuards Written stamp FAIL None testingMachine)"
  have a: "attempt testingMachine = 1"
    by (simp add: testingMachine_def happyPath_def eval_defs)
  have rf: "resolve transitions FAIL testingMachine = (Some ERROR, testingMachine)"
    by (simp add: resolve_FAIL testingMachine_state)
  have st: "state failed = ERROR"
    using transition_state_unguarded[where G=transitionGuards and io=Written and now=stamp
        and payload=None, OF rf]
    by (simp add: failed_def)
  have rr: "resolve transitions RETRY failed = (Some GENERATING, failed\<lparr>attempt := attempt failed + 1\<rparr>)"
    using st by (rule resolve_RETRY_transitions)
  have ok: "fst (transition transitions transitionGuards Written stamp RETRY None failed) = Inr ()"
    using transition_state_unguarded[where G=transitionGuards and io=Written and now=stamp
        and payload=None, OF rr]
    by simp
  have f: "attempt failed = 1"
    using attempt_counter[of transitions transitionGuards Written stamp FAIL None testingMachine "[]"]
    using rf transition_state_unguarded[where G=transitionGuards and io=Written and now=stamp
        and payload=None, OF rf]
    by (simp add: failed_def a)
  have r: "attempt (snd (transition transitions transitionGuards Written stamp RETRY None failed)) = 2"
    using attempt_counter[of transitions transitionGuards Written stamp RETRY None failed "[]"] ok f
    by simp
  show ?thesis using ok f r unfolding failed_def by simp
qed

section \<open>Persistence and the \<^verbatim>\<open>stateChange\<close> event\<close>

text \<open>
  C9. A \<^verbatim>\<open>stateChange\<close> event is emitted only after the store's save has returned:
  when steps 1 to 8 end with the save returning (\<^verbatim>\<open>commitAndSave\<close> yields the event
  \<^verbatim>\<open>ev\<close> and the machine \<^verbatim>\<open>m1\<close>), the write went through, loading from the store of
  \<^verbatim>\<open>m1\<close> gives a record whose \<^verbatim>\<open>currentState\<close> is the event's \<^verbatim>\<open>to\<close>, no event has been
  emitted yet, and \<^verbatim>\<open>transition\<close> then emits exactly \<^verbatim>\<open>ev\<close> without touching the
  store. When steps 1 to 8 throw, \<^verbatim>\<open>transition\<close> throws the same error and emits
  nothing.
\<close>

theorem stateChange_after_save:
  "(commitAndSave T G io now trg payload m = (Inr ev, m1) \<longrightarrow>
      io = Written
      \<and> (\<exists>p. load (store m1) = Some p \<and> currentState p = ev_to ev)
      \<and> events m1 = events m
      \<and> transition T G io now trg payload m = (Inr (), emitTransition ev m1)
      \<and> events (emitTransition ev m1) = events m @ [ev]
      \<and> load (store (emitTransition ev m1)) = load (store m1))
   \<and> (commitAndSave T G io now trg payload m = (Inl e, m1) \<longrightarrow>
      transition T G io now trg payload m = (Inl e, m1) \<and> events m1 = events m)"
proof (cases rule: commitAndSave_cases[where T=T and trg=trg and m=m and G=G
        and payload=payload and io=io and now=now])
  case (invalid m1')
  then show ?thesis using resolve_fields(4)[of T trg m] by (auto simp: transition_def)
next
  case (rejected nx m1')
  then show ?thesis using resolve_fields(4)[of T trg m] by (auto simp: transition_def)
next
  case (faulted nx m1' left)
  then show ?thesis using resolve_fields(4)[of T trg m]
    by (auto simp: transition_def step6_def step7_def)
next
  case (written nx m1')
  then show ?thesis using resolve_fields(4)[of T trg m]
    by (auto simp: transition_def step6_def step7_def emitTransition_def load_def
        persistedOf_def)
qed

text \<open>Run on \<^verbatim>\<open>START\<close> from a new machine, once with a good write and once with a fault.\<close>

theorem stateChange_after_save_witness:
  "fst (commitAndSave transitions transitionGuards Written stamp START None freshMachine)
     = Inr \<lparr>ev_from = IDLE, ev_to = ANALYZING, ev_trigger = START, ev_runId = ''run-1'',
            ev_timestamp = stamp\<rparr>
   \<and> (\<exists>p. load (store (snd (commitAndSave transitions transitionGuards Written stamp START None
                 freshMachine))) = Some p
          \<and> currentState p = ANALYZING)
   \<and> events (snd (transition transitions transitionGuards Written stamp START None freshMachine))
     = [\<lparr>ev_from = IDLE, ev_to = ANALYZING, ev_trigger = START, ev_runId = ''run-1'',
            ev_timestamp = stamp\<rparr>]
   \<and> fst (commitAndSave transitions transitionGuards (Faulted None) stamp START None freshMachine)
     = Inl StorageError
   \<and> events (snd (transition transitions transitionGuards (Faulted None) stamp START None
         freshMachine)) = []"
proof -
  define ev where "ev = \<lparr>ev_from = IDLE, ev_to = ANALYZING, ev_trigger = START,
    ev_runId = ''run-1'', ev_timestamp = stamp\<rparr>"
  define m1 where
    "m1 = snd (commitAndSave transitions transitionGuards Written stamp START None freshMachine)"
  define m2 where
    "m2 = snd (commitAndSave transitions transitionGuards (Faulted None) stamp START None freshMachine)"
  have c1: "commitAndSave transitions transitionGuards Written stamp START None freshMachine
            = (Inr ev, m1)"
    unfolding m1_def ev_def
    by (simp add: commitAndSave_def resolve_defs step6_def step7_def transitions_def
        guardPasses_def merged_def payloadContext_def payloadError_def persistedOf_def
        newStateMachine_def freshMachine_def Let_def)
  have c2: "commitAndSave transitions transitionGuards (Faulted None) stamp START None freshMachine
            = (Inl StorageError, m2)"
    unfolding m2_def
    by (simp add: commitAndSave_def resolve_defs step6_def step7_def transitions_def
        guardPasses_def merged_def payloadContext_def payloadError_def persistedOf_def
        newStateMachine_def freshMachine_def Let_def)
  have e0: "events freshMachine = []"
    by (simp add: freshMachine_def newStateMachine_def)
  from stateChange_after_save[of transitions transitionGuards Written stamp START None
      freshMachine ev m1 StorageError] c1
  have w: "(\<exists>p. load (store m1) = Some p \<and> currentState p = ev_to ev)"
    "transition transitions transitionGuards Written stamp START None freshMachine
       = (Inr (), emitTransition ev m1)"
    "events (emitTransition ev m1) = events freshMachine @ [ev]"
    by simp_all
  from stateChange_after_save[of transitions transitionGuards "Faulted None" stamp START None
      freshMachine ev m2 StorageError] c2
  have f: "transition transitions transitionGuards (Faulted None) stamp START None freshMachine
       = (Inl StorageError, m2)" "events m2 = events freshMachine"
    by simp_all
  have "ev_to ev = ANALYZING" by (simp add: ev_def)
  with w f c1 c2 e0 show ?thesis
    unfolding m1_def[symmetric] ev_def[symmetric] by simp
qed

text \<open>
  C2 as stated (a failed save aborts the transition and the in-memory state is as
  before the call) does not hold: \<^verbatim>\<open>transition\<close> has no rollback. A new machine
  whose \<^verbatim>\<open>START\<close> meets a storage fault throws, and is in \<^verbatim>\<open>ANALYZING\<close> with \<^verbatim>\<open>IDLE\<close>
  pushed on its history.
\<close>

theorem save_failure_not_reverted:
  "fst (transition transitions transitionGuards (Faulted None) stamp START None freshMachine)
     = Inl StorageError
   \<and> state (snd (transition transitions transitionGuards (Faulted None) stamp START None
        freshMachine)) \<noteq> state freshMachine
   \<and> history (snd (transition transitions transitionGuards (Faulted None) stamp START None
        freshMachine)) \<noteq> history freshMachine"
  by (simp add: eval_defs)

text \<open>
  C2, amended. When the store's save fails, \<^verbatim>\<open>transition\<close> throws the storage error
  and emits no \<^verbatim>\<open>stateChange\<close> event, and the in-memory state is not reverted: current
  state, context, history and attempt are the ones the same call leaves when the save
  succeeds (a call that does commit). The file holds whatever the fault left.
\<close>

theorem save_failure_keeps_commit:
  assumes "transition T G (Faulted left) now trg payload m = (Inl StorageError, m')"
  shows "fst (transition T G Written now trg payload m) = Inr ()
       \<and> state m' = state (snd (transition T G Written now trg payload m))
       \<and> ctx m' = ctx (snd (transition T G Written now trg payload m))
       \<and> history m' = history (snd (transition T G Written now trg payload m))
       \<and> attempt m' = attempt (snd (transition T G Written now trg payload m))
       \<and> events m' = events m
       \<and> store m' = left"
proof (cases rule: transition_cases[where T=T and trg=trg and m=m and G=G
        and payload=payload and io="Faulted left" and now=now])
  case (invalid m1)
  with assms show ?thesis by simp
next
  case (rejected nx m1)
  with assms show ?thesis by simp
next
  case (faulted nx m1 left')
  with assms have m': "m' = (step7 nx payload (step6 trg m1))\<lparr>store := left\<rparr>"
    by simp
  have ev: "events m1 = events m"
    using faulted(1) resolve_fields(4)[of T trg m] by simp
  have w: "transition T G Written now trg payload m =
         (Inr (),
          emitTransition
            \<lparr>ev_from = state m, ev_to = nx, ev_trigger = trg, ev_runId = runId m1,
              ev_timestamp = now\<rparr>
            ((step7 nx payload (step6 trg m1))
               \<lparr>store := Some (persistedOf now payload (step7 nx payload (step6 trg m1)))\<rparr>))"
    using faulted(1,2)
    by (cases rule: transition_cases[where T=T and trg=trg and m=m and G=G
          and payload=payload and io=Written and now=now]) simp_all
  show ?thesis
    unfolding w m' by (simp add: after_commit_fields) (simp add: step7_def step6_def ev)
next
  case (written nx m1)
  then show ?thesis by simp
qed

text \<open>Run on the failing \<^verbatim>\<open>START\<close> of the counterexample.\<close>

theorem save_failure_keeps_commit_witness:
  "fst (transition transitions transitionGuards Written stamp START None freshMachine) = Inr ()
   \<and> state (snd (transition transitions transitionGuards (Faulted None) stamp START None
        freshMachine)) = ANALYZING
   \<and> state (snd (transition transitions transitionGuards Written stamp START None freshMachine))
     = ANALYZING
   \<and> history (snd (transition transitions transitionGuards (Faulted None) stamp START None
        freshMachine))
     = history (snd (transition transitions transitionGuards Written stamp START None
        freshMachine))
   \<and> events (snd (transition transitions transitionGuards (Faulted None) stamp START None
        freshMachine)) = []"
proof -
  define m' where
    "m' = snd (transition transitions transitionGuards (Faulted None) stamp START None freshMachine)"
  have t: "transition transitions transitionGuards (Faulted None) stamp START None freshMachine
           = (Inl StorageError, m')"
    unfolding m'_def by (simp add: eval_defs)
  have s: "state m' = ANALYZING"
    unfolding m'_def by (simp add: eval_defs)
  have e0: "events freshMachine = []"
    by (simp add: freshMachine_def newStateMachine_def)
  from save_failure_keeps_commit[OF t] s e0 show ?thesis
    unfolding m'_def[symmetric] by simp
qed

section \<open>Guards\<close>

text \<open>
  Whatever state the machine is in, the guard of that state accepts the machine's
  context: a state is only entered past its guard, on the context that is then stored.
\<close>

lemma transition_guard_inv:
  assumes "guardPasses G (state m) (ctx m)"
  shows "guardPasses G (state (snd (transition T G io now trg payload m)))
           (ctx (snd (transition T G io now trg payload m)))"
proof (cases rule: transition_cases[where T=T and trg=trg and m=m and G=G
        and payload=payload and io=io and now=now])
  case (invalid m1)
  then show ?thesis using assms resolve_fields(1,2)[of T trg m] by simp
next
  case (rejected nx m1)
  then show ?thesis using assms resolve_fields(1,2)[of T trg m] by simp
next
  case (faulted nx m1 left)
  then show ?thesis by (simp add: after_commit_fields step6_fields)
next
  case (written nx m1)
  then show ?thesis by (simp add: after_commit_fields step6_fields)
qed

lemma exec_guard_inv:
  "guardPasses G (state m) (ctx m) \<Longrightarrow>
   guardPasses G (state (exec T G cs m)) (ctx (exec T G cs m))"
proof (induction cs arbitrary: m)
  case Nil
  then show ?case by simp
next
  case (Cons c cs)
  from Cons.prems
  have "guardPasses G (state (snd (fire T G c m))) (ctx (snd (fire T G c m)))"
    unfolding fire_def by (rule transition_guard_inv)
  from Cons.IH[OF this] show ?case by simp
qed

lemma new_guard:
  "G IDLE = None \<Longrightarrow>
   guardPasses G (state (newStateMachine st rid)) (ctx (newStateMachine st rid))"
  by (simp add: newStateMachine_def guardPasses_def)

text \<open>
  With the table of the second definition (the analysis check), a transition whose
  destination is \<^verbatim>\<open>SEARCHING\<close> throws the guard error when the merged context has no
  truthy \<^verbatim>\<open>analysis\<close>, and commits only with one.
\<close>

lemma analysis_guard_rejects:
  assumes "resolve T trg m = (Some SEARCHING, m1)"
      and "\<not> truthy (getProp (merged (ctx m1) payload) ''analysis'')"
  shows "transition T transitionGuards_analysis io now trg payload m
         = (Inl (GuardRejected SEARCHING), m1)"
  using assms
  by (cases rule: transition_cases[where T=T and trg=trg and m=m
        and G=transitionGuards_analysis and payload=payload and io=io and now=now])
     (simp_all add: guardPasses_def)

lemma analysis_guard_commits:
  assumes "resolve T trg m = (Some SEARCHING, m1)"
      and "fst (transition T transitionGuards_analysis io now trg payload m) = Inr ()"
  shows "truthy (getProp (ctx (snd (transition T transitionGuards_analysis io now trg payload m)))
           ''analysis'')"
  using assms
  by (cases rule: transition_cases[where T=T and trg=trg and m=m
        and G=transitionGuards_analysis and payload=payload and io=io and now=now])
     (simp_all add: guardPasses_def after_commit_fields step6_fields)

text \<open>
  C3. Entry to \<^verbatim>\<open>SEARCHING\<close> requires an analysis in the context, whatever else the
  context holds. The table of \<^verbatim>\<open>orchestrator/guards.ts\<close> checks \<^verbatim>\<open>query\<close> and
  \<^verbatim>\<open>analysisResults\<close> instead: from \<^verbatim>\<open>ANALYZING\<close>, \<^verbatim>\<open>ANALYSIS_OK\<close> with the context
  \<^verbatim>\<open>{query: 'crash'}\<close> commits and the machine is in \<^verbatim>\<open>SEARCHING\<close> with no \<^verbatim>\<open>analysis\<close>
  key, while the context \<^verbatim>\<open>{analysis: {type: 'bug'}}\<close> is rejected. The second
  definition of the table rejects the first context and accepts the second.
\<close>

theorem searching_guard_checks_query:
  "fst (transition transitions transitionGuards Written stamp ANALYSIS_OK (Some queryOnlyPayload)
          analyzingMachine) = Inr ()
   \<and> state (snd (transition transitions transitionGuards Written stamp ANALYSIS_OK
          (Some queryOnlyPayload) analyzingMachine)) = SEARCHING
   \<and> ctx (snd (transition transitions transitionGuards Written stamp ANALYSIS_OK
          (Some queryOnlyPayload) analyzingMachine)) ''analysis'' = None
   \<and> fst (transition transitions transitionGuards Written stamp ANALYSIS_OK
          (Some analysisOnlyPayload) analyzingMachine) = Inl (GuardRejected SEARCHING)
   \<and> fst (transition transitions transitionGuards_analysis Written stamp ANALYSIS_OK
          (Some queryOnlyPayload) analyzingMachine) = Inl (GuardRejected SEARCHING)
   \<and> fst (transition transitions transitionGuards_analysis Written stamp ANALYSIS_OK
          (Some analysisOnlyPayload) analyzingMachine) = Inr ()"
  by (simp add: analyzingMachine_def happyPath_def queryOnlyPayload_def analysisOnlyPayload_def
      eval_defs)

section \<open>Pause and resume\<close>

lemma operational_not_cancelled: "operational s \<Longrightarrow> s \<noteq> CANCELLED"
  by (auto simp: operational_def)

lemma pause_from_operational:
  assumes "operational (state m)" "state m \<noteq> DONE" "G PAUSED = None"
  shows "transition T G Written now PAUSE None m =
     (Inr (), m\<lparr>history := history m @ [state m], state := PAUSED,
        store := Some \<lparr>p_runId = runId m, currentState = PAUSED, updatedAt = now,
                  p_attempt = attempt m, p_context = ctx m, p_error = None,
                  p_history = history m @ [state m]\<rparr>,
        events := events m @ [\<lparr>ev_from = state m, ev_to = PAUSED, ev_trigger = PAUSE,
                    ev_runId = runId m, ev_timestamp = now\<rparr>]\<rparr>)"
proof -
  have r: "resolve T PAUSE m = (Some PAUSED, m)"
    using assms operational_not_cancelled by (simp add: resolve_PAUSE)
  have nc: "\<not> isControl (state m)"
    using assms(1) by (simp add: operational_def)
  show ?thesis
    by (simp add: transition_def commitAndSave_def r nc assms(3) step6_def step7_def
        guardPasses_def merged_def payloadContext_def payloadError_def persistedOf_def
        emitTransition_def)
qed

lemma resume_from_paused:
  assumes "state m = PAUSED" "history m = h @ [s]" "guardPasses G s (ctx m)"
  shows "transition T G Written now RESUME None m =
     (Inr (), m\<lparr>history := h, state := s,
        store := Some \<lparr>p_runId = runId m, currentState = s, updatedAt = now,
                  p_attempt = attempt m, p_context = ctx m, p_error = None,
                  p_history = h\<rparr>,
        events := events m @ [\<lparr>ev_from = PAUSED, ev_to = s, ev_trigger = RESUME,
                    ev_runId = runId m, ev_timestamp = now\<rparr>]\<rparr>)"
proof -
  have r: "resolve T RESUME m = (Some s, m\<lparr>history := h\<rparr>)"
    using assms(2) by (simp add: resolve_RESUME)
  show ?thesis
    using assms(1,3)
    by (simp add: transition_def commitAndSave_def r step6_def step7_def
        merged_def payloadContext_def payloadError_def persistedOf_def
        emitTransition_def)
qed

text \<open>
  C4 as stated (for every reachable operational state \<^verbatim>\<open>S\<close>, \<^verbatim>\<open>PAUSE\<close> then \<^verbatim>\<open>RESUME\<close>
  returns to \<^verbatim>\<open>S\<close>) does not hold for the operational state \<^verbatim>\<open>DONE\<close>: the global
  overrides are skipped there, so \<^verbatim>\<open>PAUSE\<close> is an invalid transition, and the
  \<^verbatim>\<open>RESUME\<close> that follows pops the history and leaves the machine in \<^verbatim>\<open>SUBMITTING\<close>.
\<close>

theorem pause_resume_from_done:
  "operational (state doneMachine)
   \<and> fst (transition transitions transitionGuards Written stamp PAUSE None doneMachine)
     = Inl (InvalidTransition PAUSE DONE)
   \<and> state (snd (transition transitions transitionGuards Written stamp RESUME None
        (snd (transition transitions transitionGuards Written stamp PAUSE None doneMachine))))
     = SUBMITTING
   \<and> state (snd (transition transitions transitionGuards Written stamp RESUME None
        (snd (transition transitions transitionGuards Written stamp PAUSE None doneMachine))))
     \<noteq> state doneMachine"
proof -
  have d: "state doneMachine = DONE" by (rule doneMachine_state)
  have h: "history doneMachine =
     [IDLE, ANALYZING, SEARCHING, PLANNING, GENERATING, APPLYING, BUILDING, TESTING,
      REVIEWING] @ [SUBMITTING]"
    by (simp add: doneMachine_history)
  have rp: "resolve transitions PAUSE doneMachine = (None, doneMachine)"
    by (simp add: resolve_defs d transitions_def)
  have p: "transition transitions transitionGuards Written stamp PAUSE None doneMachine
           = (Inl (InvalidTransition PAUSE DONE), doneMachine)"
    using rp d
    by (cases rule: transition_cases[where T=transitions and trg=PAUSE and m=doneMachine
          and G=transitionGuards and payload=None and io=Written and now=stamp]) simp_all
  have rr: "resolve transitions RESUME doneMachine
            = (Some SUBMITTING, doneMachine\<lparr>history := butlast (history doneMachine)\<rparr>)"
    unfolding resolve_RESUME h by simp
  have "state (snd (transition transitions transitionGuards Written stamp RESUME None doneMachine))
        = SUBMITTING"
    using transition_state_unguarded[where G=transitionGuards and io=Written and now=stamp
        and payload=None, OF rr]
    by simp
  with p d show ?thesis by (simp add: operational_def)
qed

text \<open>
  C4, amended. For every machine reached from a new one by calls of \<^verbatim>\<open>transition\<close>
  whose state \<^verbatim>\<open>S\<close> is operational and is not \<^verbatim>\<open>DONE\<close>: \<^verbatim>\<open>PAUSE\<close> followed by
  \<^verbatim>\<open>RESUME\<close>, both without payload and with the saves going through, both commit, the
  machine passes through \<^verbatim>\<open>PAUSED\<close> and is back in \<^verbatim>\<open>S\<close> with context, history and
  attempt unchanged. The guard table is any one without a guard on \<^verbatim>\<open>IDLE\<close> and
  \<^verbatim>\<open>PAUSED\<close>, as both definitions in the repository are.
\<close>

theorem pause_resume_roundtrip:
  assumes reach: "m = exec T G cs (newStateMachine st rid)"
      and G: "G IDLE = None" "G PAUSED = None"
      and S: "operational (state m)" "state m \<noteq> DONE"
      and p: "transition T G Written t1 PAUSE None m = (r1, m1)"
      and r: "transition T G Written t2 RESUME None m1 = (r2, m2)"
  shows "r1 = Inr () \<and> state m1 = PAUSED \<and> r2 = Inr ()
       \<and> state m2 = state m \<and> ctx m2 = ctx m \<and> history m2 = history m
       \<and> attempt m2 = attempt m"
proof -
  have inv: "guardPasses G (state m) (ctx m)"
    unfolding reach by (rule exec_guard_inv) (simp add: new_guard G(1))
  from p have m1: "r1 = Inr ()" "state m1 = PAUSED" "history m1 = history m @ [state m]"
      "ctx m1 = ctx m" "attempt m1 = attempt m"
    using pause_from_operational[where m=m and G=G and T=T and now=t1] S G(2) by auto
  from inv have "guardPasses G (state m) (ctx m1)"
    by (simp add: m1)
  from resume_from_paused[OF m1(2) m1(3) this] r
  show ?thesis by (auto simp: m1)
qed

text \<open>Run on the machine that has gone from \<^verbatim>\<open>IDLE\<close> to \<^verbatim>\<open>TESTING\<close>.\<close>

theorem pause_resume_roundtrip_witness:
  "fst (transition transitions transitionGuards Written stamp PAUSE None testingMachine) = Inr ()
   \<and> state (snd (transition transitions transitionGuards Written stamp PAUSE None testingMachine))
     = PAUSED
   \<and> fst (transition transitions transitionGuards Written stamp RESUME None
        (snd (transition transitions transitionGuards Written stamp PAUSE None testingMachine)))
     = Inr ()
   \<and> state (snd (transition transitions transitionGuards Written stamp RESUME None
        (snd (transition transitions transitionGuards Written stamp PAUSE None testingMachine))))
     = TESTING
   \<and> ctx (snd (transition transitions transitionGuards Written stamp RESUME None
        (snd (transition transitions transitionGuards Written stamp PAUSE None testingMachine))))
     = ctx testingMachine"
proof -
  have reach: "testingMachine = exec transitions transitionGuards (take 7 happyPath)
      (newStateMachine None ''run-1'')"
    by (simp add: testingMachine_def freshMachine_def)
  have S: "operational (state testingMachine)" "state testingMachine \<noteq> DONE"
    by (simp_all add: testingMachine_state operational_def)
  have G: "transitionGuards IDLE = None" "transitionGuards PAUSED = None"
    by simp_all
  show ?thesis
    using pause_resume_roundtrip[OF reach G S surjective_pairing surjective_pairing]
    by (simp add: testingMachine_state)
qed

section \<open>History\<close>

lemma transition_history_operational:
  assumes "\<forall>s\<in>set (history m). operational s"
  shows "\<forall>s\<in>set (history (snd (transition T G io now trg payload m))). operational s"
proof -
  have h1: "\<forall>s\<in>set (history (snd (resolve T trg m))). operational s"
    using assms resolve_history_set[of T trg m] by blast
  have h6: "\<forall>s\<in>set (history (step6 trg (snd (resolve T trg m)))). operational s"
    using h1 by (auto simp: step6_fields operational_def)
  show ?thesis
  proof (cases rule: transition_cases[where T=T and trg=trg and m=m and G=G
          and payload=payload and io=io and now=now])
    case (invalid m1)
    then show ?thesis using h1 by simp
  next
    case (rejected nx m1)
    then show ?thesis using h1 by simp
  next
    case (faulted nx m1 left)
    then show ?thesis using h6 by (simp add: after_commit_fields)
  next
    case (written nx m1)
    then show ?thesis using h6 by (simp add: after_commit_fields)
  qed
qed

lemma exec_history_operational:
  "\<forall>s\<in>set (history m). operational s \<Longrightarrow>
   \<forall>s\<in>set (history (exec T G cs m)). operational s"
proof (induction cs arbitrary: m)
  case Nil
  then show ?case by simp
next
  case (Cons c cs)
  from Cons.prems have "\<forall>s\<in>set (history (snd (fire T G c m))). operational s"
    unfolding fire_def by (rule transition_history_operational)
  from Cons.IH[OF this] show ?case by simp
qed

lemma le_10_cases:
  "(i::nat) \<le> 10 \<Longrightarrow>
   i = 0 \<or> i = 1 \<or> i = 2 \<or> i = 3 \<or> i = 4 \<or> i = 5 \<or> i = 6 \<or> i = 7 \<or> i = 8 \<or> i = 9
   \<or> i = 10"
  by arith

lemma forwardPath_not_control: "i \<le> 10 \<Longrightarrow> \<not> isControl (forwardPath ! i)"
  by (drule le_10_cases) (auto simp: forwardPath_def)

lemma forwardPath_distinct: "distinct forwardPath"
  by (simp add: forwardPath_def)

lemma nth_notin_take:
  assumes "distinct xs" "n < length xs"
  shows "xs ! n \<notin> set (take n xs)"
proof
  assume "xs ! n \<in> set (take n xs)"
  then obtain i where "i < length (take n xs)" "take n xs ! i = xs ! n"
    by (auto simp: in_set_conv_nth)
  then have "i < n" "xs ! i = xs ! n" by simp_all
  with assms show False by (simp add: nth_eq_iff_index_eq)
qed

text \<open>In the table a forward trigger only leads one step along the forward path.\<close>

lemma transitions_forward:
  assumes "transitions (forwardPath ! i) trg = Some nx" "i \<le> 10" "trg \<in> set forwardTriggers"
  shows "i < 10 \<and> nx = forwardPath ! Suc i"
  using le_10_cases[OF assms(2)] assms(1,3)
  by (elim disjE)
     (simp_all add: forwardPath_def transitions_def forwardTriggers_def split: if_splits)

lemma forward_step:
  assumes "trg \<in> set forwardTriggers"
      and "transition transitions G io now trg payload m = (Inr (), m')"
      and "state m = forwardPath ! i" "i \<le> 10"
  shows "i < 10 \<and> state m' = forwardPath ! Suc i \<and> history m' = history m @ [forwardPath ! i]"
proof (cases rule: transition_cases[where T=transitions and trg=trg and m=m and G=G
        and payload=payload and io=io and now=now])
  case (invalid m1)
  with assms(2) show ?thesis by simp
next
  case (rejected nx m1)
  with assms(2) show ?thesis by simp
next
  case (faulted nx m1 left)
  with assms(2) show ?thesis by simp
next
  case (written nx m1)
  have rf: "resolve transitions trg m = (transitions (state m) trg, m)"
    by (rule resolve_forward[OF assms(1)])
  have eq: "(transitions (state m) trg, m) = (Some nx, m1)"
    using written(1) unfolding rf .
  have nx: "transitions (state m) trg = Some nx"
    using eq by (rule Pair_inject)
  have m1: "m1 = m"
    using eq by (rule Pair_inject) simp
  from nx assms(3) have "transitions (forwardPath ! i) trg = Some nx"
    by simp
  from transitions_forward[OF this assms(4) assms(1)]
  have i: "i < 10" "nx = forwardPath ! Suc i"
    by simp_all
  have nc: "\<not> isControl (state m)"
    using assms(3,4) forwardPath_not_control by simp
  from written(4) assms(2) have "m' = emitTransition
            \<lparr>ev_from = state m, ev_to = nx, ev_trigger = trg, ev_runId = runId m1,
              ev_timestamp = now\<rparr>
            ((step7 nx payload (step6 trg m1))
               \<lparr>store := Some (persistedOf now payload (step7 nx payload (step6 trg m1)))\<rparr>)"
    by simp
  then have "state m' = nx" "history m' = history (step6 trg m)"
    by (simp_all add: after_commit_fields m1)
  with i nc forward_not_control[OF assms(1)] assms(3) show ?thesis
    by (simp add: step6_fields)
qed

lemma forward_run:
  assumes "\<forall>c\<in>set cs. c_trigger c \<in> set forwardTriggers"
      and "allCommitted transitions G cs m"
      and "state m = forwardPath ! i" "i \<le> 10" "history m = take i forwardPath"
  shows "i + length cs \<le> 10
       \<and> history (exec transitions G cs m) = take (i + length cs) forwardPath
       \<and> state (exec transitions G cs m) = forwardPath ! (i + length cs)"
  using assms
proof (induction cs arbitrary: m i)
  case Nil
  then show ?case by simp
next
  case (Cons c cs)
  obtain r m' where f: "fire transitions G c m = (r, m')"
    by (cases "fire transitions G c m")
  with Cons.prems(2) have r: "r = Inr ()" and rest: "allCommitted transitions G cs m'"
    by (auto split: sum.splits)
  from f r
  have t: "transition transitions G (c_io c) (c_now c) (c_trigger c) (c_payload c) m = (Inr (), m')"
    by (simp add: fire_def)
  from Cons.prems(1) have ct: "c_trigger c \<in> set forwardTriggers"
    by simp
  from forward_step[OF ct t Cons.prems(3,4)]
  have s: "i < 10" "state m' = forwardPath ! Suc i" "history m' = history m @ [forwardPath ! i]"
    by simp_all
  have len: "length forwardPath = 11"
    by (simp add: forwardPath_def)
  have h: "history m' = take (Suc i) forwardPath"
    using s(1,3) Cons.prems(5) len by (simp add: take_Suc_conv_app_nth)
  from Cons.prems(1) have "\<forall>c\<in>set cs. c_trigger c \<in> set forwardTriggers"
    by simp
  from Cons.IH[OF this rest s(2) _ h] s(1) f show ?case
    by simp
qed

text \<open>
  C5. Whatever calls of \<^verbatim>\<open>transition\<close> a new machine has gone through (committed or
  thrown), its history holds operational states only: \<^verbatim>\<open>PAUSED\<close>, \<^verbatim>\<open>ERROR\<close> and
  \<^verbatim>\<open>CANCELLED\<close> never appear in it. And after \<^verbatim>\<open>N\<close> committed forward transitions
  (those of \<^verbatim>\<open>START\<close> and the success triggers) from a new machine in \<^verbatim>\<open>IDLE\<close>, the
  history is exactly the first \<^verbatim>\<open>N\<close> states of the forward path, in order, the current
  state is the next state of the path, and it is not in the history.
\<close>

theorem history_operational_forward:
  "(\<forall>s\<in>set (history (exec T G cs (newStateMachine st rid))). operational s)
   \<and> ((\<forall>c\<in>set fs. c_trigger c \<in> set forwardTriggers)
        \<and> allCommitted transitions G fs (newStateMachine st rid) \<longrightarrow>
      length fs \<le> 10
      \<and> history (exec transitions G fs (newStateMachine st rid)) = take (length fs) forwardPath
      \<and> state (exec transitions G fs (newStateMachine st rid)) = forwardPath ! length fs
      \<and> state (exec transitions G fs (newStateMachine st rid))
          \<notin> set (history (exec transitions G fs (newStateMachine st rid))))"
proof -
  have a: "\<forall>s\<in>set (history (exec T G cs (newStateMachine st rid))). operational s"
    by (rule exec_history_operational) (simp add: newStateMachine_def)
  have b: "length fs \<le> 10
      \<and> history (exec transitions G fs (newStateMachine st rid)) = take (length fs) forwardPath
      \<and> state (exec transitions G fs (newStateMachine st rid)) = forwardPath ! length fs
      \<and> state (exec transitions G fs (newStateMachine st rid))
          \<notin> set (history (exec transitions G fs (newStateMachine st rid)))"
    if f: "\<forall>c\<in>set fs. c_trigger c \<in> set forwardTriggers"
      and c: "allCommitted transitions G fs (newStateMachine st rid)"
  proof -
    have s0: "state (newStateMachine st rid) = forwardPath ! 0"
      by (simp add: newStateMachine_def forwardPath_def)
    have h0: "history (newStateMachine st rid) = take 0 forwardPath"
      by (simp add: newStateMachine_def)
    from forward_run[OF f c s0 _ h0]
    have r: "length fs \<le> 10"
      "history (exec transitions G fs (newStateMachine st rid)) = take (length fs) forwardPath"
      "state (exec transitions G fs (newStateMachine st rid)) = forwardPath ! length fs"
      by simp_all
    have "length fs < length forwardPath"
      using r(1) by (simp add: forwardPath_def)
    from nth_notin_take[OF forwardPath_distinct this] r show ?thesis
      by simp
  qed
  from a b show ?thesis by blast
qed

text \<open>
  Run on the ten forward transitions of the happy path: the history is the ten states
  from \<^verbatim>\<open>IDLE\<close> to \<^verbatim>\<open>SUBMITTING\<close> and the machine is in \<^verbatim>\<open>DONE\<close>.
\<close>

theorem history_operational_forward_witness:
  "list_all operational (history (exec transitions transitionGuards happyPath freshMachine))
   \<and> history (exec transitions transitionGuards happyPath freshMachine)
     = [IDLE, ANALYZING, SEARCHING, PLANNING, GENERATING, APPLYING, BUILDING, TESTING,
        REVIEWING, SUBMITTING]
   \<and> state (exec transitions transitionGuards happyPath freshMachine) = DONE"
proof -
  have f: "\<forall>c\<in>set happyPath. c_trigger c \<in> set forwardTriggers"
    by (simp add: happyPath_def call_def forwardTriggers_def)
  have c: "allCommitted transitions transitionGuards happyPath (newStateMachine None ''run-1'')"
    using happyPath_committed by (simp add: freshMachine_def)
  have l: "length happyPath = 10"
    by (simp add: happyPath_def)
  from history_operational_forward[of transitions transitionGuards happyPath None "''run-1''"
      happyPath] f c
  show ?thesis
    unfolding freshMachine_def l by (simp add: forwardPath_def list_all_iff)
qed

section \<open>Recovery\<close>

lemma fix_cycle_not_terminal:
  "S \<in> set FIX_CYCLE_STATES \<Longrightarrow> S \<noteq> DONE \<and> S \<noteq> CANCELLED"
  by (auto simp: FIX_CYCLE_STATES_def)

lemma testing_failure_retryable:
  "severity (classify ''Tests failed'' None TESTING) = Retryable
   \<and> retryTarget (classify ''Tests failed'' None TESTING) = Some GENERATING"
  by code_simp

lemma executeState_catch_eq:
  "executeState_catch T G io now msg det st orc =
     (fst (transition T G io now FAIL
             (Some \<lparr>pl_context = Some (workflowDataToContext (data orc)),
                     pl_error = Some \<lparr>code = cl_code (classify msg det st),
                                       message = cl_message (classify msg det st),
                                       details = cl_details (classify msg det st)\<rparr>\<rparr>)
             (machine orc)),
      orc\<lparr>lastError := Some (classify msg det st),
          machine := snd (transition T G io now FAIL
             (Some \<lparr>pl_context = Some (workflowDataToContext (data orc)),
                     pl_error = Some \<lparr>code = cl_code (classify msg det st),
                                       message = cl_message (classify msg det st),
                                       details = cl_details (classify msg det st)\<rparr>\<rparr>)
             (machine orc))\<rparr>)"
  by (simp add: executeState_catch_def Let_def case_prod_beta)

text \<open>
  C1. For a failure in a fix-cycle state \<^verbatim>\<open>S\<close> (the \<^verbatim>\<open>catch\<close> branch of
  \<^verbatim>\<open>executeState\<close> classifies it and the \<^verbatim>\<open>FAIL\<close> transition commits, leaving the machine
  in \<^verbatim>\<open>ERROR\<close>): if \<^verbatim>\<open>shouldRetry\<close> permits the retry, the state reached by the
  \<^verbatim>\<open>RETRY\<close> transition of \<^verbatim>\<open>attemptRecovery\<close> is \<^verbatim>\<open>GENERATING\<close>, not \<^verbatim>\<open>S\<close>, with the
  attempt counter one higher; and \<^verbatim>\<open>attemptRecovery\<close> reports success when the save
  goes through. The guard table is any one without a guard on \<^verbatim>\<open>GENERATING\<close>.
\<close>

theorem retry_targets_generating:
  assumes S: "S \<in> set FIX_CYCLE_STATES" "state (machine orc) = S"
      and G: "G GENERATING = None"
      and fail: "executeState_catch transitions G io1 t1 msg det S orc = (Inr (), orc1)"
      and permit: "shouldRetry (maxAttempts orc1) (attempt (machine orc1)) (classify msg det S)"
  shows "lastError orc1 = Some (classify msg det S)
       \<and> state (machine orc1) = ERROR
       \<and> state (machine (snd (attemptRecovery transitions G io2 t2 orc1))) = GENERATING
       \<and> attempt (machine (snd (attemptRecovery transitions G io2 t2 orc1)))
         = attempt (machine orc) + 1
       \<and> (io2 = Written \<longrightarrow> fst (attemptRecovery transitions G io2 t2 orc1))"
proof -
  define payload where "payload =
     \<lparr>pl_context = Some (workflowDataToContext (data orc)),
      pl_error = Some \<lparr>code = cl_code (classify msg det S),
                        message = cl_message (classify msg det S),
                        details = cl_details (classify msg det S)\<rparr>\<rparr>"
  define tr where "tr = transition transitions G io1 t1 FAIL (Some payload) (machine orc)"
  have orc1: "orc1 = orc\<lparr>lastError := Some (classify msg det S), machine := snd tr\<rparr>"
    and ok: "fst tr = Inr ()"
    using fail unfolding executeState_catch_eq tr_def payload_def
    by simp_all
  have rf: "resolve transitions FAIL (machine orc) = (Some ERROR, machine orc)"
    using S fix_cycle_not_terminal by (simp add: resolve_FAIL)
  have st: "state (snd tr) = ERROR"
    using transition_state_committed[OF _ rf] ok unfolding tr_def by simp
  have att: "attempt (snd tr) = attempt (machine orc)"
    unfolding tr_def by (simp add: transition_attempt)
  have le: "lastError orc1 = Some (classify msg det S)" and mo: "machine orc1 = snd tr"
    by (simp_all add: orc1)
  have rr: "resolve transitions RETRY (machine orc1)
            = (Some GENERATING, (machine orc1)\<lparr>attempt := attempt (machine orc1) + 1\<rparr>)"
    using st mo by (simp add: resolve_RETRY_transitions)
  note un = transition_state_unguarded[where G=G and io=io2 and now=t2 and payload=None,
      OF rr G]
  have ar: "attemptRecovery transitions G io2 t2 orc1 =
      (case transition transitions G io2 t2 RETRY None (machine orc1) of
         (Inr u, m) \<Rightarrow> (True, orc1\<lparr>machine := m, lastError := None\<rparr>)
       | (Inl e, m) \<Rightarrow> (False, orc1\<lparr>machine := m\<rparr>))"
    using permit by (simp add: attemptRecovery_def le)
  obtain r m where t: "transition transitions G io2 t2 RETRY None (machine orc1) = (r, m)"
    by (cases "transition transitions G io2 t2 RETRY None (machine orc1)")
  from un t have m: "state m = GENERATING" "attempt m = attempt (machine orc1) + 1"
    "io2 = Written \<longrightarrow> r = Inr ()"
    by auto
  have res: "attemptRecovery transitions G io2 t2 orc1 =
      (case r of Inr u \<Rightarrow> (True, orc1\<lparr>machine := m, lastError := None\<rparr>)
               | Inl e \<Rightarrow> (False, orc1\<lparr>machine := m\<rparr>))"
    unfolding ar t by (simp split: sum.splits)
  have att_m: "attempt m = attempt (machine orc) + 1"
    using m(2) mo att by simp
  have st1: "state (machine orc1) = ERROR"
    using st mo by simp
  show ?thesis
    unfolding res using m(1,3) att_m le st1 by (cases r) simp_all
qed

text \<open>
  Run on a failure of the \<^verbatim>\<open>TESTING\<close> handler with message \<^verbatim>\<open>Tests failed\<close> and
  \<^verbatim>\<open>maxAttempts = 3\<close>: the retry goes to \<^verbatim>\<open>GENERATING\<close>, not back to \<^verbatim>\<open>TESTING\<close>.
\<close>

theorem retry_targets_generating_witness:
  "state (machine (snd (executeState_catch transitions transitionGuards Written stamp
       ''Tests failed'' None TESTING (testingOrchestrator 3)))) = ERROR
   \<and> fst (attemptRecovery transitions transitionGuards Written stamp
        (snd (executeState_catch transitions transitionGuards Written stamp
           ''Tests failed'' None TESTING (testingOrchestrator 3))))
   \<and> state (machine (snd (attemptRecovery transitions transitionGuards Written stamp
        (snd (executeState_catch transitions transitionGuards Written stamp
           ''Tests failed'' None TESTING (testingOrchestrator 3)))))) = GENERATING
   \<and> attempt (machine (snd (attemptRecovery transitions transitionGuards Written stamp
        (snd (executeState_catch transitions transitionGuards Written stamp
           ''Tests failed'' None TESTING (testingOrchestrator 3)))))) = 2"
proof -
  define orc1 where "orc1 = snd (executeState_catch transitions transitionGuards Written stamp
       ''Tests failed'' None TESTING (testingOrchestrator 3))"
  define payload where "payload =
     \<lparr>pl_context = Some (workflowDataToContext (data (testingOrchestrator 3))),
      pl_error = Some \<lparr>code = cl_code (classify ''Tests failed'' None TESTING),
                        message = cl_message (classify ''Tests failed'' None TESTING),
                        details = cl_details (classify ''Tests failed'' None TESTING)\<rparr>\<rparr>"
  have S: "TESTING \<in> set FIX_CYCLE_STATES" "state (machine (testingOrchestrator 3)) = TESTING"
    by (simp_all add: FIX_CYCLE_STATES_def testingOrchestrator_def testingMachine_state)
  have G: "transitionGuards GENERATING = None"
    by simp
  have rf: "resolve transitions FAIL testingMachine = (Some ERROR, testingMachine)"
    by (simp add: resolve_FAIL testingMachine_state)
  have ok: "fst (transition transitions transitionGuards Written stamp FAIL (Some payload)
               testingMachine) = Inr ()"
    using transition_state_unguarded[where G=transitionGuards and io=Written and now=stamp
        and payload="Some payload", OF rf]
    by simp
  have fail: "executeState_catch transitions transitionGuards Written stamp ''Tests failed'' None
       TESTING (testingOrchestrator 3) = (Inr (), orc1)"
    using ok unfolding orc1_def executeState_catch_eq payload_def
    by (simp add: testingOrchestrator_def)
  have a: "attempt testingMachine = 1"
    by (simp add: testingMachine_def happyPath_def eval_defs)
  have m1: "maxAttempts orc1 = 3" "attempt (machine orc1) = 1"
    unfolding orc1_def executeState_catch_eq
    by (simp_all add: testingOrchestrator_def transition_attempt a)
  have permit: "shouldRetry (maxAttempts orc1) (attempt (machine orc1))
      (classify ''Tests failed'' None TESTING)"
    using testing_failure_retryable by (simp add: shouldRetry_def m1)
  from retry_targets_generating[OF S G fail permit, of Written stamp]
  show ?thesis
    unfolding orc1_def[symmetric] by (simp add: testingOrchestrator_def a)
qed

text \<open>
  C7 as stated (\<^verbatim>\<open>shouldRetry\<close> is true if and only if the severity is retryable, the
  retry target is defined and \<^verbatim>\<open>attempt < maxAttempts\<close>) does not hold for every
  classification: \<^verbatim>\<open>shouldRetry\<close> only excludes the severity \<^verbatim>\<open>fatal\<close>, so a transient
  classification that carries a retry target is retried.
\<close>

theorem shouldRetry_transient_with_target:
  "shouldRetry 3 1 transientWithTarget
   \<and> \<not> (severity transientWithTarget = Retryable \<and> retryTarget transientWithTarget \<noteq> None
         \<and> (1::int) < 3)"
  by (simp add: shouldRetry_def transientWithTarget_def)

text \<open>
  C7, amended. \<^verbatim>\<open>shouldRetry(attempt, classification)\<close> is true if and only if the
  severity is not fatal, the retry target is defined and \<^verbatim>\<open>attempt < maxAttempts\<close>; on
  the classifications that \<^verbatim>\<open>classify\<close> produces this is the same as: the severity is
  retryable, the retry target is defined and \<^verbatim>\<open>attempt < maxAttempts\<close>. With
  \<^verbatim>\<open>maxAttempts = 1\<close> it is false for every classification and every attempt count from
  1 on, and \<^verbatim>\<open>attemptRecovery\<close> on any machine reached from a new one returns false
  and changes nothing, so the first failure ends in \<^verbatim>\<open>ERROR\<close>.
\<close>

theorem shouldRetry_decision:
  "(shouldRetry maxA att c \<longleftrightarrow> severity c \<noteq> Fatal \<and> retryTarget c \<noteq> None \<and> att < maxA)
   \<and> (shouldRetry maxA att (classify msg det st) \<longleftrightarrow>
        severity (classify msg det st) = Retryable
        \<and> retryTarget (classify msg det st) \<noteq> None \<and> att < maxA)
   \<and> (1 \<le> att \<longrightarrow> \<not> shouldRetry 1 att c)
   \<and> (maxAttempts orc = 1 \<and> machine orc = exec T G cs (newStateMachine sto rid) \<longrightarrow>
        attemptRecovery T G io now orc = (False, orc))"
proof -
  have a: "shouldRetry maxA att c \<longleftrightarrow> severity c \<noteq> Fatal \<and> retryTarget c \<noteq> None \<and> att < maxA"
    for maxA att c
    by (simp add: shouldRetry_def)
  have b: "shouldRetry maxA att (classify msg det st) \<longleftrightarrow>
        severity (classify msg det st) = Retryable
        \<and> retryTarget (classify msg det st) \<noteq> None \<and> att < maxA"
    by (simp add: a classify_def)
  have c: "1 \<le> att \<Longrightarrow> \<not> shouldRetry 1 att c" for att c
    by (simp add: a)
  have d: "attemptRecovery T G io now orc = (False, orc)"
    if "maxAttempts orc = 1" "machine orc = exec T G cs (newStateMachine sto rid)"
  proof -
    have "attempt (newStateMachine sto rid) \<le> attempt (machine orc)"
      unfolding that(2) by (rule exec_attempt_mono)
    then have "1 \<le> attempt (machine orc)"
      by (simp add: newStateMachine_def)
    from c[OF this] show ?thesis
      by (simp add: attemptRecovery_def that(1) split: option.splits)
  qed
  from a b c d show ?thesis by blast
qed

text \<open>
  Run on the failure of the \<^verbatim>\<open>TESTING\<close> handler: with \<^verbatim>\<open>maxAttempts = 3\<close> the first
  failure is retried, with \<^verbatim>\<open>maxAttempts = 1\<close> it is not and the orchestrator stays as
  the failure left it, in \<^verbatim>\<open>ERROR\<close>.
\<close>

theorem shouldRetry_decision_witness:
  "shouldRetry 3 1 (classify ''Tests failed'' None TESTING)
   \<and> \<not> shouldRetry 1 1 (classify ''Tests failed'' None TESTING)
   \<and> attemptRecovery transitions transitionGuards Written stamp
        \<lparr>machine = exec transitions transitionGuards (take 7 happyPath @ [call FAIL None])
                     (newStateMachine None ''run-1''),
         maxAttempts = 1, data = Map.empty,
         lastError = Some (classify ''Tests failed'' None TESTING)\<rparr>
     = (False,
        \<lparr>machine = exec transitions transitionGuards (take 7 happyPath @ [call FAIL None])
                     (newStateMachine None ''run-1''),
         maxAttempts = 1, data = Map.empty,
         lastError = Some (classify ''Tests failed'' None TESTING)\<rparr>)
   \<and> state (exec transitions transitionGuards (take 7 happyPath @ [call FAIL None])
        (newStateMachine None ''run-1'')) = ERROR"
proof -
  define orc where "orc =
        \<lparr>machine = exec transitions transitionGuards (take 7 happyPath @ [call FAIL None])
                     (newStateMachine None ''run-1''),
         maxAttempts = 1, data = Map.empty,
         lastError = Some (classify ''Tests failed'' None TESTING)\<rparr>"
  have e: "state (exec transitions transitionGuards (take 7 happyPath @ [call FAIL None])
        (newStateMachine None ''run-1'')) = ERROR"
    by (simp add: happyPath_def eval_defs)
  have o: "maxAttempts orc = 1"
    "machine orc = exec transitions transitionGuards (take 7 happyPath @ [call FAIL None])
                     (newStateMachine None ''run-1'')"
    by (simp_all add: orc_def)
  from shouldRetry_decision[of 3 1 "classify ''Tests failed'' None TESTING"
      "''Tests failed''" None TESTING orc transitions transitionGuards
      "take 7 happyPath @ [call FAIL None]" None "''run-1''" Written stamp]
    shouldRetry_decision[of 1 1 "classify ''Tests failed'' None TESTING"
      "''Tests failed''" None TESTING orc transitions transitionGuards
      "take 7 happyPath @ [call FAIL None]" None "''run-1''" Written stamp]
    testing_failure_retryable o e
  show ?thesis
    unfolding orc_def[symmetric] by simp
qed

text \<open>
  C6. The classification is to match the fatal and the transient patterns by
  case-insensitive substring matching. \<^verbatim>\<open>isTransient\<close> lower-cases message and
  pattern; \<^verbatim>\<open>isFatal\<close> compares them as they are. So \<^verbatim>\<open>authentication failed\<close>, which
  differs from the fatal pattern \<^verbatim>\<open>Authentication failed\<close> in letter case only, is not
  matched: in \<^verbatim>\<open>GENERATING\<close> it is classified retryable with retry target
  \<^verbatim>\<open>GENERATING\<close> (and a retry is permitted), and in \<^verbatim>\<open>ANALYZING\<close> it gets the code
  \<^verbatim>\<open>UNRECOVERABLE_ERROR\<close> instead of \<^verbatim>\<open>FATAL_ERROR\<close>. The transient patterns do match
  across letter case.
\<close>

theorem fatal_patterns_case_sensitive:
  "isFatal ''Authentication failed''
   \<and> \<not> isFatal ''authentication failed''
   \<and> severity (classify ''Authentication failed'' None GENERATING) = Fatal
   \<and> severity (classify ''authentication failed'' None GENERATING) = Retryable
   \<and> retryTarget (classify ''authentication failed'' None GENERATING) = Some GENERATING
   \<and> shouldRetry 3 1 (classify ''authentication failed'' None GENERATING)
   \<and> cl_code (classify ''Authentication failed'' None ANALYZING) = ''FATAL_ERROR''
   \<and> cl_code (classify ''authentication failed'' None ANALYZING) = ''UNRECOVERABLE_ERROR''
   \<and> isTransient ''Rate Limit exceeded''
   \<and> isTransient ''rate limit exceeded''"
  by code_simp

end
